theory Spec2Isabelle
  imports Main "HOL-Library.Sublist"
begin

section \<open>Characters and character classes\<close>

text \<open>
  A text is a Python \<open>str\<close>: a sequence of code points. The model takes the code points
  U+0000 to U+00FF, one \<open>char\<close> each, and classifies them as CPython's \<open>re\<close> module does
  for a \<open>str\<close> pattern (Unicode matching): \<open>\d\<close> is a decimal digit, \<open>\s\<close> is white
  space, a word character is alphanumeric or the underscore.
\<close>

definition codepoint :: "char \<Rightarrow> nat" where
  "codepoint c = of_char c"

definition is_digit :: "char \<Rightarrow> bool" where
  "is_digit c = (48 \<le> codepoint c \<and> codepoint c \<le> 57)"

definition is_space :: "char \<Rightarrow> bool" where
  "is_space c = ((9 \<le> codepoint c \<and> codepoint c \<le> 13)
     \<or> (28 \<le> codepoint c \<and> codepoint c \<le> 32)
     \<or> codepoint c = 133 \<or> codepoint c = 160)"

definition is_word :: "char \<Rightarrow> bool" where
  "is_word c = ((48 \<le> codepoint c \<and> codepoint c \<le> 57)
     \<or> (65 \<le> codepoint c \<and> codepoint c \<le> 90)
     \<or> codepoint c = 95
     \<or> (97 \<le> codepoint c \<and> codepoint c \<le> 122)
     \<or> codepoint c = 170 \<or> codepoint c = 178 \<or> codepoint c = 179
     \<or> codepoint c = 181 \<or> codepoint c = 185 \<or> codepoint c = 186
     \<or> (188 \<le> codepoint c \<and> codepoint c \<le> 190)
     \<or> (192 \<le> codepoint c \<and> codepoint c \<le> 214)
     \<or> (216 \<le> codepoint c \<and> codepoint c \<le> 246)
     \<or> (248 \<le> codepoint c \<and> codepoint c \<le> 255))"

text \<open>
  Case folding for \<open>re.IGNORECASE\<close>. Every letter written in the patterns below is an
  ASCII letter, and no other code point below 256 folds to one, so the ASCII pairs are
  the only ones that matter.
\<close>

definition lower :: "char \<Rightarrow> char" where
  "lower c = (if 65 \<le> codepoint c \<and> codepoint c \<le> 90 then char_of (codepoint c + 32) else c)"

definition upper :: "char \<Rightarrow> char" where
  "upper c = (if 97 \<le> codepoint c \<and> codepoint c \<le> 122 then char_of (codepoint c - 32) else c)"

datatype citem = Ch char | Range char char | Digit | Space

definition in_range :: "char \<Rightarrow> char \<Rightarrow> char \<Rightarrow> bool" where
  "in_range lo hi c = (codepoint lo \<le> codepoint c \<and> codepoint c \<le> codepoint hi)"

text \<open>
  Membership in a class item. Under \<open>re.IGNORECASE\<close> a character also matches when its
  other case does; \<open>\d\<close> and \<open>\s\<close> do not depend on the flag.
\<close>

fun in_item :: "bool \<Rightarrow> citem \<Rightarrow> char \<Rightarrow> bool" where
  "in_item ic (Ch m) c = (c = m \<or> (ic \<and> lower c = lower m))"
| "in_item ic (Range lo hi) c =
     (in_range lo hi c \<or> (ic \<and> (in_range lo hi (lower c) \<or> in_range lo hi (upper c))))"
| "in_item ic Digit c = is_digit c"
| "in_item ic Space c = is_space c"

definition in_class :: "bool \<Rightarrow> citem list \<Rightarrow> char \<Rightarrow> bool" where
  "in_class ic cs c = list_ex (\<lambda>it. in_item ic it c) cs"

section \<open>Regular expressions and the backtracking matcher\<close>

text \<open>
  The syntax covers what the patterns of \<open>contact_detector.py\<close> use: one character out
  of a class (a literal is a class of one), a greedy repetition \<open>{m,n}\<close> of a class
  (\<open>?\<close> is \<open>{0,1}\<close>, \<open>+\<close> is \<open>{1,}\<close>), \<open>^\<close>, \<open>\b\<close>, alternation and
  concatenation. All groups in the source are non-capturing.
\<close>

datatype regex =
    Eps
  | Atom "citem list"
  | Repeat nat "nat option" "citem list"
  | Bol
  | WordB
  | Alt regex regex
  | Seq regex regex

definition word_at :: "string \<Rightarrow> nat \<Rightarrow> bool" where
  "word_at t i = (i < length t \<and> is_word (t ! i))"

text \<open>\<open>\b\<close>: never in an empty text; otherwise the characters on the two sides differ in
  being word characters, the outside of the text counting as a non-word character.\<close>

definition boundary :: "string \<Rightarrow> nat \<Rightarrow> bool" where
  "boundary t i = (t \<noteq> [] \<and> ((0 < i \<and> word_at t (i - 1)) \<noteq> word_at t i))"

text \<open>
  \<open>rep_ends\<close> lists where a greedy repetition may stop, in the order in which
  backtracking tries them: longest first. \<open>mn\<close> characters are still owed, at most
  \<open>mx\<close> more may be taken.
\<close>

fun rep_ends :: "(char \<Rightarrow> bool) \<Rightarrow> string \<Rightarrow> nat \<Rightarrow> nat \<Rightarrow> nat \<Rightarrow> nat list" where
  "rep_ends P t mn 0 i = (if mn = 0 then [i] else [])"
| "rep_ends P t mn (Suc mx) i =
     (if i < length t \<and> P (t ! i) then rep_ends P t (mn - 1) mx (Suc i) else [])
     @ (if mn = 0 then [i] else [])"

text \<open>
  \<open>ends ic r t i\<close> : the positions where a match of \<open>r\<close> that starts at position \<open>i\<close>
  of \<open>t\<close> can end, in the order the backtracking matcher finds them. The head of the
  list is the match the engine reports.
\<close>

fun ends :: "bool \<Rightarrow> regex \<Rightarrow> string \<Rightarrow> nat \<Rightarrow> nat list" where
  "ends ic Eps t i = [i]"
| "ends ic (Atom cs) t i = (if i < length t \<and> in_class ic cs (t ! i) then [Suc i] else [])"
| "ends ic (Repeat m n cs) t i =
     rep_ends (in_class ic cs) t m (case n of None \<Rightarrow> length t - i | Some k \<Rightarrow> k) i"
| "ends ic Bol t i = (if i = 0 then [i] else [])"
| "ends ic WordB t i = (if boundary t i then [i] else [])"
| "ends ic (Alt a b) t i = ends ic a t i @ ends ic b t i"
| "ends ic (Seq a b) t i = concat (map (ends ic b t) (ends ic a t i))"

record pattern =
  regex :: regex
  ignorecase :: bool

definition slice :: "string \<Rightarrow> nat \<Rightarrow> nat \<Rightarrow> string" where
  "slice t s e = take (e - s) (drop s t)"

text \<open>
  One attempt at start position \<open>i\<close> of a search that began at \<open>pos\<close>. With
  \<open>must_advance\<close> set (the previous match of \<open>findall\<close> was empty) a match that ends at
  \<open>pos\<close> is refused and the matcher backtracks.
\<close>

definition match_at :: "pattern \<Rightarrow> string \<Rightarrow> nat \<Rightarrow> bool \<Rightarrow> nat \<Rightarrow> nat option" where
  "match_at p t pos must_advance i =
     (case filter (\<lambda>e. \<not> (must_advance \<and> e = pos)) (ends (ignorecase p) (regex p) t i) of
        [] \<Rightarrow> None
      | e # _ \<Rightarrow> Some e)"

fun first_match :: "pattern \<Rightarrow> string \<Rightarrow> nat \<Rightarrow> bool \<Rightarrow> nat list \<Rightarrow> (nat \<times> nat) option" where
  "first_match p t pos adv [] = None"
| "first_match p t pos adv (i # starts) =
     (case match_at p t pos adv i of
        Some e \<Rightarrow> Some (i, e)
      | None \<Rightarrow> first_match p t pos adv starts)"

definition search_at :: "pattern \<Rightarrow> string \<Rightarrow> nat \<Rightarrow> bool \<Rightarrow> (nat \<times> nat) option" where
  "search_at p t pos adv = first_match p t pos adv [pos ..< Suc (length t)]"

text \<open>\<open>Pattern.search(text)\<close>: the span of the leftmost match, or \<open>None\<close>.\<close>

definition search :: "pattern \<Rightarrow> string \<Rightarrow> (nat \<times> nat) option" where
  "search p t = search_at p t 0 False"

text \<open>
  \<open>Pattern.findall(text)\<close> for a pattern without capturing groups: the matched
  substrings of the successive non-overlapping matches, left to right. Each round
  resumes at the end of the previous match; after an empty match the next one must
  advance.
\<close>

function findall_from :: "pattern \<Rightarrow> string \<Rightarrow> nat \<Rightarrow> bool \<Rightarrow> string list" where
  "findall_from p t pos adv =
     (case search_at p t pos adv of
        None \<Rightarrow> []
      | Some (s, e) \<Rightarrow> slice t s e # findall_from p t e (e = s))"
  by pat_completeness auto
termination
proof (relation "measure (\<lambda>(p, t, pos, adv). 2 * (length t - pos) + (if adv then 0 else 1))")
  show "wf (measure (\<lambda>(p, t, pos, adv). 2 * (length t - pos) + (if adv then 0 else 1)))"
    by simp
next
  fix p :: pattern and t :: string and pos :: nat and adv :: bool
    and x :: "nat \<times> nat" and s e :: nat
  assume found: "search_at p t pos adv = Some x" and x: "(s, e) = x"
  have rep: "e \<in> set (rep_ends P t mn mx i) \<Longrightarrow> i \<le> length t \<Longrightarrow> i \<le> e \<and> e \<le> length t"
    for P t mn mx i e
    by (induction P t mn mx i rule: rep_ends.induct) (auto split: if_splits)
  have inside: "e \<in> set (ends ic r t i) \<Longrightarrow> i \<le> length t \<Longrightarrow> i \<le> e \<and> e \<le> length t"
    for ic r t i e
  proof (induction r arbitrary: i e)
    case (Repeat m n cs)
    then show ?case using rep by simp
  next
    case (Seq a b)
    then obtain k where "k \<in> set (ends ic a t i)" "e \<in> set (ends ic b t k)"
      by auto
    with Seq show ?case by (meson le_trans)
  qed (auto split: if_splits)
  have first: "first_match p t pos adv starts = Some (s, e) \<Longrightarrow>
      s \<in> set starts \<and> match_at p t pos adv s = Some e" for starts
    by (induction starts) (auto split: option.splits)
  from found x have "first_match p t pos adv [pos ..< Suc (length t)] = Some (s, e)"
    by (simp add: search_at_def)
  from first [OF this] have s: "pos \<le> s" "s \<le> length t"
    and m: "match_at p t pos adv s = Some e"
    by auto
  from m obtain rest where
    "filter (\<lambda>e. \<not> (adv \<and> e = pos)) (ends (ignorecase p) (regex p) t s) = e # rest"
    by (auto simp: match_at_def split: list.splits)
  then have "e \<in> set (filter (\<lambda>e. \<not> (adv \<and> e = pos)) (ends (ignorecase p) (regex p) t s))"
    by simp
  then have e: "e \<in> set (ends (ignorecase p) (regex p) t s)" "\<not> (adv \<and> e = pos)"
    by auto
  from inside [OF e(1) s(2)] have "s \<le> e" "e \<le> length t"
    by auto
  with s e(2) show "((p, t, e, e = s), (p, t, pos, adv))
      \<in> measure (\<lambda>(p, t, pos, adv). 2 * (length t - pos) + (if adv then 0 else 1))"
    by auto
qed

definition findall :: "pattern \<Rightarrow> string \<Rightarrow> string list" where
  "findall p t = findall_from p t 0 False"

section \<open>The patterns of the detector\<close>

definition lit :: "char \<Rightarrow> regex" where
  "lit c = Atom [Ch c]"

definition seqs :: "regex list \<Rightarrow> regex" where
  "seqs rs = foldr Seq rs Eps"

definition str :: "string \<Rightarrow> regex" where
  "str s = seqs (map lit s)"

definition opt :: "citem list \<Rightarrow> regex" where
  "opt cs = Repeat 0 (Some 1) cs"

definition plus :: "citem list \<Rightarrow> regex" where
  "plus cs = Repeat 1 None cs"

definition digits :: "nat \<Rightarrow> regex" where
  "digits n = Repeat n (Some n) [Digit]"

definition re_compile :: "regex \<Rightarrow> bool \<Rightarrow> pattern" where
  "re_compile r flag = \<lparr>regex = r, ignorecase = flag\<rparr>"

text \<open>\<open>[-.\s]\<close>, the separator between the groups of a phone number.\<close>

definition sep :: "citem list" where
  "sep = [Ch CHR ''-'', Ch CHR ''.'', Space]"

definition alpha :: "citem list" where
  "alpha = [Range CHR ''a'' CHR ''z'', Range CHR ''A'' CHR ''Z'']"

definition alnum :: "citem list" where
  "alnum = alpha @ [Range CHR ''0'' CHR ''9'']"

text \<open>\<^verbatim>\<open>[a-zA-Z0-9._%+-]+@[a-zA-Z0-9.-]+\.[a-zA-Z]{2,}\<close> with \<open>re.IGNORECASE\<close>.\<close>

definition EMAIL_PATTERN :: pattern where
  "EMAIL_PATTERN = re_compile (seqs
     [plus (alnum @ [Ch CHR ''.'', Ch CHR ''_'', Ch CHR ''%'', Ch CHR ''+'', Ch CHR ''-'']),
      lit CHR ''@'',
      plus (alnum @ [Ch CHR ''.'', Ch CHR ''-'']),
      lit CHR ''.'',
      Repeat 2 None alpha]) True"

text \<open>
  The eight phone patterns, in the order of the source list:
  \<^verbatim>\<open>\+63[-.\s]?9\d{2}[-.\s]?\d{3}[-.\s]?\d{4}\<close>,
  \<^verbatim>\<open>\b09\d{2}[-.\s]?\d{3}[-.\s]?\d{4}\b\<close>,
  \<^verbatim>\<open>\+63[-.\s]?2[-.\s]?\d{4}[-.\s]?\d{4}\<close>,
  \<^verbatim>\<open>\+63[-.\s]?\d{2}[-.\s]?\d{3}[-.\s]?\d{4}\<close>,
  \<^verbatim>\<open>\(?\b02\)?[-.\s]?\d{4}[-.\s]?\d{4}\b\<close>,
  \<^verbatim>\<open>\(?\b0\d{2}\)?[-.\s]?\d{3}[-.\s]?\d{4}\b\<close>,
  \<^verbatim>\<open>\b09\d{9}\b\<close>,
  \<^verbatim>\<open>\b\d{10,12}\b\<close>.
\<close>

definition PHONE_PATTERNS :: "pattern list" where
  "PHONE_PATTERNS =
    [re_compile (seqs [str ''+63'', opt sep, lit CHR ''9'', digits 2, opt sep, digits 3,
                       opt sep, digits 4]) False,
     re_compile (seqs [WordB, str ''09'', digits 2, opt sep, digits 3, opt sep, digits 4,
                       WordB]) False,
     re_compile (seqs [str ''+63'', opt sep, lit CHR ''2'', opt sep, digits 4, opt sep,
                       digits 4]) False,
     re_compile (seqs [str ''+63'', opt sep, digits 2, opt sep, digits 3, opt sep,
                       digits 4]) False,
     re_compile (seqs [opt [Ch CHR ''(''], WordB, str ''02'', opt [Ch CHR '')''], opt sep,
                       digits 4, opt sep, digits 4, WordB]) False,
     re_compile (seqs [opt [Ch CHR ''(''], WordB, lit CHR ''0'', digits 2, opt [Ch CHR '')''],
                       opt sep, digits 3, opt sep, digits 4, WordB]) False,
     re_compile (seqs [WordB, str ''09'', digits 9, WordB]) False,
     re_compile (seqs [WordB, Repeat 10 (Some 12) [Digit], WordB]) False]"

text \<open>
  The eight social patterns, in the order of the source list:
  \<^verbatim>\<open>(?:^|[\s(])@[a-zA-Z_][a-zA-Z0-9_]{0,14}\b\<close> (case-sensitive), then with
  \<open>re.IGNORECASE\<close>
  \<^verbatim>\<open>linkedin\.com/in/[a-zA-Z0-9_-]+\<close>,
  \<^verbatim>\<open>github\.com/[a-zA-Z0-9_-]+\<close>,
  \<^verbatim>\<open>(?:twitter|x)\.com/[a-zA-Z0-9_]+\<close>,
  \<^verbatim>\<open>instagram\.com/[a-zA-Z0-9_.]+\<close>,
  \<^verbatim>\<open>facebook\.com/[a-zA-Z0-9.]+\<close>,
  \<^verbatim>\<open>(?:t\.me|telegram\.me)/[a-zA-Z0-9_]+\<close>,
  \<^verbatim>\<open>wa\.me/\d+\<close>.
\<close>

definition SOCIAL_PATTERNS :: "pattern list" where
  "SOCIAL_PATTERNS =
    [re_compile (seqs [Alt Bol (Atom [Space, Ch CHR ''('']), lit CHR ''@'',
                       Atom (alpha @ [Ch CHR ''_'']),
                       Repeat 0 (Some 14) (alnum @ [Ch CHR ''_'']), WordB]) False,
     re_compile (seqs [str ''linkedin.com/in/'',
                       plus (alnum @ [Ch CHR ''_'', Ch CHR ''-''])]) True,
     re_compile (seqs [str ''github.com/'',
                       plus (alnum @ [Ch CHR ''_'', Ch CHR ''-''])]) True,
     re_compile (seqs [Alt (str ''twitter'') (str ''x''), str ''.com/'',
                       plus (alnum @ [Ch CHR ''_''])]) True,
     re_compile (seqs [str ''instagram.com/'',
                       plus (alnum @ [Ch CHR ''_'', Ch CHR ''.''])]) True,
     re_compile (seqs [str ''facebook.com/'', plus (alnum @ [Ch CHR ''.''])]) True,
     re_compile (seqs [Alt (str ''t.me'') (str ''telegram.me''), lit CHR ''/'',
                       plus (alnum @ [Ch CHR ''_''])]) True,
     re_compile (seqs [str ''wa.me/'', plus [Digit]]) True]"

section \<open>The detector\<close>

text \<open>
  The argument of both entry points is a Python value that is a \<open>str\<close> or \<open>None\<close>;
  \<open>not text\<close> holds for \<open>None\<close> and for the empty string.

  Both functions are modelled with the list of the compiled patterns they evaluate
  (by \<open>search\<close> or by \<open>findall\<close>), in the order of evaluation, next to their result.
\<close>

record DetectionResult =
  has_contact_info :: bool
  details :: "string \<rightharpoonup> string list"

text \<open>The loop \<^verbatim>\<open>for pattern in PATTERNS: if pattern.search(text): return True\<close>; the
  boolean tells whether the loop returned.\<close>

fun search_any :: "pattern list \<Rightarrow> string \<Rightarrow> pattern list \<times> bool" where
  "search_any [] t = ([], False)"
| "search_any (p # ps) t =
     (if search p t \<noteq> None then ([p], True)
      else (case search_any ps t of (evaluated, r) \<Rightarrow> (p # evaluated, r)))"

definition contains_run :: "string option \<Rightarrow> pattern list \<times> bool" where
  "contains_run text =
     (case text of
        None \<Rightarrow> ([], False)
      | Some t \<Rightarrow>
          if t = [] then ([], False)
          else if search EMAIL_PATTERN t \<noteq> None then ([EMAIL_PATTERN], True)
          else (case search_any PHONE_PATTERNS t of
                  (ev1, True) \<Rightarrow> (EMAIL_PATTERN # ev1, True)
                | (ev1, False) \<Rightarrow>
                    (case search_any SOCIAL_PATTERNS t of
                       (ev2, r) \<Rightarrow> (EMAIL_PATTERN # ev1 @ ev2, r))))"

definition contains_contact_info :: "string option \<Rightarrow> bool" where
  "contains_contact_info text = snd (contains_run text)"

text \<open>The loop \<^verbatim>\<open>for pattern in PATTERNS: found[k].extend(pattern.findall(text))\<close>.\<close>

definition extend_all :: "pattern list \<Rightarrow> string \<Rightarrow> string list \<Rightarrow> string list" where
  "extend_all ps t acc = foldl (\<lambda>acc p. acc @ findall p t) acc ps"

text \<open>\<^verbatim>\<open>list(set(xs))\<close>: the distinct elements of \<open>xs\<close>. Python leaves their order open;
  the model fixes one, and nothing below depends on it.\<close>

definition dedupe :: "string list \<Rightarrow> string list" where
  "dedupe xs = remdups xs"

text \<open>\<^verbatim>\<open>found[k]\<close> for a key bound when the dictionary was created.\<close>

definition lookup :: "(string \<rightharpoonup> string list) \<Rightarrow> string \<Rightarrow> string list" where
  "lookup found k = (case found k of Some xs \<Rightarrow> xs | None \<Rightarrow> [])"

text \<open>The truth value of a list, as \<^verbatim>\<open>bool(...)\<close> and \<^verbatim>\<open>or\<close> take it: non-empty.\<close>

definition truthy :: "string list \<Rightarrow> bool" where
  "truthy xs = (xs \<noteq> [])"

definition detect_run :: "string option \<Rightarrow> pattern list \<times> DetectionResult" where
  "detect_run text =
     (case text of
        None \<Rightarrow> ([], \<lparr>has_contact_info = False, details = Map.empty\<rparr>)
      | Some t \<Rightarrow>
          if t = [] then ([], \<lparr>has_contact_info = False, details = Map.empty\<rparr>)
          else
            let found = [''emails'' \<mapsto> [], ''phones'' \<mapsto> [], ''social'' \<mapsto> []];
                found = found(''emails'' \<mapsto> findall EMAIL_PATTERN t);
                found = found(''phones'' \<mapsto> extend_all PHONE_PATTERNS t (lookup found ''phones''));
                found = found(''phones'' \<mapsto> dedupe (lookup found ''phones''));
                found = found(''social'' \<mapsto> extend_all SOCIAL_PATTERNS t (lookup found ''social''));
                found = found(''social'' \<mapsto> dedupe (lookup found ''social''));
                has_contact = (truthy (lookup found ''emails'') \<or> truthy (lookup found ''phones'')
                                \<or> truthy (lookup found ''social''))
            in (EMAIL_PATTERN # PHONE_PATTERNS @ SOCIAL_PATTERNS,
                \<lparr>has_contact_info = has_contact, details = found\<rparr>))"

definition detect_contact_info :: "string option \<Rightarrow> DetectionResult" where
  "detect_contact_info text = snd (detect_run text)"

text \<open>A category of a result holds a match: its key is bound to a non-empty list.\<close>

definition nonempty_category :: "DetectionResult \<Rightarrow> string \<Rightarrow> bool" where
  "nonempty_category r k = (case details r k of None \<Rightarrow> False | Some xs \<Rightarrow> xs \<noteq> [])"

section \<open>Word characters at the edges of a match\<close>








section \<open>Properties\<close>

declare findall_from.simps [simp del]

subsection \<open>The two entry points unfolded\<close>

lemma detect_nonempty:
  "t \<noteq> [] \<Longrightarrow> detect_run (Some t) =
     (EMAIL_PATTERN # PHONE_PATTERNS @ SOCIAL_PATTERNS,
      \<lparr>has_contact_info = (findall EMAIL_PATTERN t \<noteq> []
           \<or> dedupe (extend_all PHONE_PATTERNS t []) \<noteq> []
           \<or> dedupe (extend_all SOCIAL_PATTERNS t []) \<noteq> []),
       details = [''emails'' \<mapsto> findall EMAIL_PATTERN t,
                  ''phones'' \<mapsto> dedupe (extend_all PHONE_PATTERNS t []),
                  ''social'' \<mapsto> dedupe (extend_all SOCIAL_PATTERNS t [])]\<rparr>)"
  by (auto simp: detect_run_def Let_def lookup_def truthy_def fun_eq_iff)

lemma detect_empty:
  "detect_run None = ([], \<lparr>has_contact_info = False, details = Map.empty\<rparr>)"
  "detect_run (Some []) = ([], \<lparr>has_contact_info = False, details = Map.empty\<rparr>)"
  by (simp_all add: detect_run_def)

lemma extend_all_concat: "extend_all ps t acc = acc @ concat (map (\<lambda>p. findall p t) ps)"
  unfolding extend_all_def by (induction ps arbitrary: acc) simp_all

lemma set_dedupe_extend: "set (dedupe (extend_all ps t [])) = (\<Union>p \<in> set ps. set (findall p t))"
  by (simp add: dedupe_def extend_all_concat)

lemma findall_empty_iff: "findall p t = [] \<longleftrightarrow> search p t = None"
  unfolding findall_def search_def
  by (subst findall_from.simps) (simp split: option.splits)

lemma dedupe_extend_empty_iff:
  "dedupe (extend_all ps t []) = [] \<longleftrightarrow> (\<forall>p \<in> set ps. search p t = None)"
  by (simp add: dedupe_def extend_all_concat findall_empty_iff)

lemma search_any_result: "snd (search_any ps t) \<longleftrightarrow> (\<exists>p \<in> set ps. search p t \<noteq> None)"
  by (induction ps) (auto split: prod.splits)

lemma contains_nonempty:
  "t \<noteq> [] \<Longrightarrow> contains_contact_info (Some t) \<longleftrightarrow>
     (search EMAIL_PATTERN t \<noteq> None \<or> (\<exists>p \<in> set PHONE_PATTERNS. search p t \<noteq> None)
       \<or> (\<exists>p \<in> set SOCIAL_PATTERNS. search p t \<noteq> None))"
  using search_any_result [of PHONE_PATTERNS t] search_any_result [of SOCIAL_PATTERNS t]
  by (auto simp: contains_contact_info_def contains_run_def split: prod.splits bool.splits)

text \<open>
  Claim C1. For every input, a string or \<open>None\<close>, the boolean check
  \<open>contains_contact_info\<close> returns true exactly when the result of
  \<open>detect_contact_info\<close> has \<open>has_contact_info\<close> true.
\<close>

theorem quick_agrees_with_detailed:
  "contains_contact_info text = has_contact_info (detect_contact_info text)"
proof (cases "text = None \<or> text = Some []")
  case True
  then show ?thesis
    by (auto simp: contains_contact_info_def contains_run_def detect_contact_info_def detect_empty)
next
  case False
  then obtain t where t: "text = Some t" "t \<noteq> []" by auto
  show ?thesis
    unfolding t(1) contains_nonempty [OF t(2)] detect_contact_info_def detect_nonempty [OF t(2)]
    using dedupe_extend_empty_iff [of PHONE_PATTERNS t] dedupe_extend_empty_iff [of SOCIAL_PATTERNS t]
    by (auto simp: findall_empty_iff)
qed

subsection \<open>The search loop\<close>

lemma search_any_append:
  "search_any (ps @ qs) t =
     (case search_any ps t of
        (ev, True) \<Rightarrow> (ev, True)
      | (ev, False) \<Rightarrow> (case search_any qs t of (ev2, r) \<Rightarrow> (ev @ ev2, r)))"
  by (induction ps) (auto split: prod.splits bool.splits)

lemma search_any_scan:
  "search_any ps t =
     (takeWhile (\<lambda>p. search p t = None) ps @ take 1 (dropWhile (\<lambda>p. search p t = None) ps),
      list_ex (\<lambda>p. search p t \<noteq> None) ps)"
  by (induction ps) (auto split: prod.splits)

lemma contains_run_scan:
  assumes "t \<noteq> []"
  shows "contains_run (Some t) = search_any (EMAIL_PATTERN # PHONE_PATTERNS @ SOCIAL_PATTERNS) t"
  using assms
  by (auto simp: contains_run_def search_any_append split: prod.splits bool.splits)

text \<open>
  Claim C5. For a non-empty text the boolean check evaluates the patterns in the order
  email, then the phone patterns in list order, then the social patterns in list
  order; it evaluates every pattern that does not match up to the first one that
  matches, evaluates that one, and nothing after it. It returns true when some pattern
  matches and false when none does (and then all of them were evaluated).
\<close>

theorem contains_evaluation_order:
  assumes "t \<noteq> []"
  shows "contains_run (Some t) =
     (takeWhile (\<lambda>p. search p t = None) (EMAIL_PATTERN # PHONE_PATTERNS @ SOCIAL_PATTERNS)
        @ take 1 (dropWhile (\<lambda>p. search p t = None)
                    (EMAIL_PATTERN # PHONE_PATTERNS @ SOCIAL_PATTERNS)),
      list_ex (\<lambda>p. search p t \<noteq> None) (EMAIL_PATTERN # PHONE_PATTERNS @ SOCIAL_PATTERNS))"
  unfolding contains_run_scan [OF assms] by (rule search_any_scan)

theorem contains_evaluation_order_witness:
  "''0917-123-4567'' \<noteq> [] \<and>
   contains_run (Some ''0917-123-4567'') =
     ([EMAIL_PATTERN, PHONE_PATTERNS ! 0, PHONE_PATTERNS ! 1], True)"
proof -
  define p0 where "p0 = PHONE_PATTERNS ! 0"
  define p1 where "p1 = PHONE_PATTERNS ! 1"
  define rest where "rest = drop 2 PHONE_PATTERNS"
  have phones: "PHONE_PATTERNS = p0 # p1 # rest"
    unfolding p0_def p1_def rest_def by (simp add: PHONE_PATTERNS_def)
  have "search EMAIL_PATTERN ''0917-123-4567'' = None"
    by code_simp
  moreover have "search p0 ''0917-123-4567'' = None"
    unfolding p0_def by code_simp
  moreover have "search p1 ''0917-123-4567'' = Some (0, 13)"
    unfolding p1_def by code_simp
  ultimately show ?thesis
    using contains_evaluation_order [of "''0917-123-4567''"] unfolding phones by simp
qed

subsection \<open>Empty input and the shape of the result\<close>

text \<open>
  Claim C4. For \<open>None\<close> and for the empty string the boolean check returns false and
  the detailed check returns \<open>has_contact_info = False\<close> with an empty mapping; in both
  cases no pattern is evaluated. The outcome is an ordinary result value.
\<close>

theorem empty_input_is_negative:
  "contains_run None = ([], False) \<and> contains_run (Some []) = ([], False)
   \<and> contains_contact_info None = False \<and> contains_contact_info (Some []) = False
   \<and> detect_run None = ([], \<lparr>has_contact_info = False, details = Map.empty\<rparr>)
   \<and> detect_run (Some []) = ([], \<lparr>has_contact_info = False, details = Map.empty\<rparr>)
   \<and> detect_contact_info None = \<lparr>has_contact_info = False, details = Map.empty\<rparr>
   \<and> detect_contact_info (Some []) = \<lparr>has_contact_info = False, details = Map.empty\<rparr>"
  by (simp add: contains_run_def contains_contact_info_def detect_run_def detect_contact_info_def)

text \<open>
  Claim C3. In every result of \<open>detect_contact_info\<close>, \<open>has_contact_info\<close> is true
  exactly when the email, the phone or the social list of the result is non-empty.
\<close>

theorem flag_iff_some_category_nonempty:
  "has_contact_info (detect_contact_info text) =
     (nonempty_category (detect_contact_info text) ''emails''
      \<or> nonempty_category (detect_contact_info text) ''phones''
      \<or> nonempty_category (detect_contact_info text) ''social'')"
proof (cases "text = None \<or> text = Some []")
  case True
  then show ?thesis
    by (auto simp: detect_contact_info_def detect_empty nonempty_category_def)
next
  case False
  then obtain t where t: "text = Some t" "t \<noteq> []" by auto
  show ?thesis
    unfolding t(1) detect_contact_info_def detect_nonempty [OF t(2)]
    by (simp add: nonempty_category_def)
qed

text \<open>
  Claim C9. For a non-empty text the keys of the details mapping are exactly
  \<open>emails\<close>, \<open>phones\<close> and \<open>social\<close> (each bound to a list); the mapping is empty for
  \<open>None\<close> and for the empty string, and only then.
\<close>

theorem details_keys:
  "dom (details (detect_contact_info text)) =
     (if text = None \<or> text = Some [] then {} else {''emails'', ''phones'', ''social''})"
proof (cases "text = None \<or> text = Some []")
  case True
  then show ?thesis
    by (auto simp: detect_contact_info_def detect_empty)
next
  case False
  then obtain t where t: "text = Some t" "t \<noteq> []" by auto
  show ?thesis
    unfolding t(1) detect_contact_info_def detect_nonempty [OF t(2)]
    using t(2) by auto
qed

subsection \<open>What findall reports\<close>

lemma first_match_Some:
  "first_match p t pos adv starts = Some (s, e) \<Longrightarrow>
     s \<in> set starts \<and> match_at p t pos adv s = Some e"
  by (induction starts) (auto split: option.splits)

lemma match_at_Some:
  assumes "match_at p t pos adv s = Some e"
  shows "e \<in> set (ends (ignorecase p) (regex p) t s)"
proof -
  from assms obtain rest where
    "filter (\<lambda>e. \<not> (adv \<and> e = pos)) (ends (ignorecase p) (regex p) t s) = e # rest"
    by (auto simp: match_at_def split: list.splits)
  then have "e \<in> set (filter (\<lambda>e. \<not> (adv \<and> e = pos)) (ends (ignorecase p) (regex p) t s))"
    by simp
  then show ?thesis by simp
qed

lemma search_at_Some:
  assumes "search_at p t pos adv = Some (s, e)"
  shows "s \<le> length t \<and> e \<in> set (ends (ignorecase p) (regex p) t s)"
  using first_match_Some [of p t pos adv "[pos ..< Suc (length t)]" s e] assms match_at_Some
  by (auto simp: search_at_def)

lemma findall_from_spans:
  "x \<in> set (findall_from p t pos adv) \<Longrightarrow>
     \<exists>s e. x = slice t s e \<and> s \<le> length t \<and> e \<in> set (ends (ignorecase p) (regex p) t s)"
proof (induction p t pos adv rule: findall_from.induct)
  case (1 p t pos adv)
  show ?case
  proof (cases "search_at p t pos adv")
    case None
    with "1.prems" show ?thesis by (simp add: findall_from.simps [of p t pos adv])
  next
    case (Some se)
    obtain s e where se: "se = (s, e)" by (cases se)
    from "1.prems" Some se have "x = slice t s e \<or> x \<in> set (findall_from p t e (e = s))"
      by (simp add: findall_from.simps [of p t pos adv])
    then show ?thesis
    proof
      assume "x = slice t s e"
      with search_at_Some Some se show ?thesis by blast
    next
      assume "x \<in> set (findall_from p t e (e = s))"
      with "1.IH" Some se show ?thesis by simp
    qed
  qed
qed

lemma sublist_slice: "sublist (slice t s e) t"
proof -
  have "drop s t = slice t s e @ drop (e - s) (drop s t)"
    unfolding slice_def by (rule append_take_drop_id [symmetric])
  then have "t = take s t @ slice t s e @ drop (e - s) (drop s t)"
    by (metis append_take_drop_id)
  then show ?thesis unfolding sublist_def by blast
qed

lemma details_cases:
  assumes "x \<in> set (lookup (details (detect_contact_info (Some t))) k)"
  shows "(k = ''emails'' \<and> x \<in> set (findall EMAIL_PATTERN t))
       \<or> (k = ''phones'' \<and> (\<exists>p \<in> set PHONE_PATTERNS. x \<in> set (findall p t)))
       \<or> (k = ''social'' \<and> (\<exists>p \<in> set SOCIAL_PATTERNS. x \<in> set (findall p t)))"
proof (cases "t = []")
  case True
  with assms show ?thesis
    by (simp add: detect_contact_info_def detect_empty lookup_def)
next
  case False
  from assms show ?thesis
    unfolding detect_contact_info_def detect_nonempty [OF False]
    by (auto simp: lookup_def set_dedupe_extend split: if_splits)
qed

text \<open>
  Claim C10. Every string reported in a category list of \<open>detect_contact_info\<close> on a
  text \<open>t\<close> is a contiguous substring of \<open>t\<close>.
\<close>

theorem reported_strings_are_substrings:
  assumes "x \<in> set (lookup (details (detect_contact_info (Some t))) k)"
  shows "sublist x t"
proof -
  from details_cases [OF assms] obtain p where "x \<in> set (findall p t)"
    by blast
  then obtain s e where "x = slice t s e"
    unfolding findall_def using findall_from_spans by blast
  then show ?thesis by (simp add: sublist_slice)
qed

theorem reported_strings_are_substrings_witness:
  "''a@b.co'' \<in> set (lookup (details (detect_contact_info (Some ''mail a@b.co''))) ''emails'')
   \<and> sublist ''a@b.co'' ''mail a@b.co''"
proof -
  have "findall EMAIL_PATTERN ''mail a@b.co'' = [''a@b.co'']"
    by code_simp
  then have h: "''a@b.co''
      \<in> set (lookup (details (detect_contact_info (Some ''mail a@b.co''))) ''emails'')"
    unfolding detect_contact_info_def by (simp add: detect_nonempty lookup_def)
  from reported_strings_are_substrings [OF h] h show ?thesis
    by simp
qed

subsection \<open>Scenarios\<close>

lemma email_scenario_matches:
  "findall EMAIL_PATTERN ''Contact me at john.doe@email.com'' = [''john.doe@email.com'']"
  by code_simp

text \<open>
  Claim C7. On \<open>Contact me at john.doe@email.com\<close> the detailed check returns
  \<open>has_contact_info\<close> true and the email list \<open>[john.doe@email.com]\<close>.
\<close>

theorem email_scenario:
  "has_contact_info (detect_contact_info (Some ''Contact me at john.doe@email.com''))
   \<and> details (detect_contact_info (Some ''Contact me at john.doe@email.com'')) ''emails''
       = Some [''john.doe@email.com'']"
  unfolding detect_contact_info_def
  by (simp add: detect_nonempty email_scenario_matches)

lemma handle_scenario_matches:
  "dedupe (extend_all SOCIAL_PATTERNS ''Follow @johndoe on Twitter'' []) = ['' @johndoe'']"
  by code_simp

text \<open>
  Claim C8, as stated: on \<open>Follow @johndoe on Twitter\<close> the social list contains the
  entry \<open>@johndoe\<close>. It does not: the handle pattern consumes the character before the
  \<open>@\<close>, so the entry reported is the handle with the space in front of it.
\<close>

theorem handle_scenario_counterexample:
  "\<not> (has_contact_info (detect_contact_info (Some ''Follow @johndoe on Twitter''))
      \<and> ''@johndoe''
          \<in> set (lookup (details (detect_contact_info (Some ''Follow @johndoe on Twitter'')))
                   ''social''))"
  unfolding detect_contact_info_def
  by (simp add: detect_nonempty handle_scenario_matches lookup_def)

text \<open>
  Claim C8, amended: on \<open>Follow @johndoe on Twitter\<close> the detailed check returns
  \<open>has_contact_info\<close> true and the social list has the single entry \<open> @johndoe\<close>, the
  handle preceded by the space that the pattern matched.
\<close>

theorem handle_scenario:
  "has_contact_info (detect_contact_info (Some ''Follow @johndoe on Twitter''))
   \<and> details (detect_contact_info (Some ''Follow @johndoe on Twitter'')) ''social''
       = Some ['' @johndoe'']"
  unfolding detect_contact_info_def
  by (simp add: detect_nonempty handle_scenario_matches)

subsection \<open>Duplicates\<close>

lemma phones_social_distinct:
  "distinct (lookup (details (detect_contact_info text)) ''phones'')
   \<and> distinct (lookup (details (detect_contact_info text)) ''social'')"
proof (cases "text = None \<or> text = Some []")
  case True
  then show ?thesis
    by (auto simp: detect_contact_info_def detect_empty lookup_def)
next
  case False
  then obtain t where t: "text = Some t" "t \<noteq> []" by auto
  show ?thesis
    unfolding t(1) detect_contact_info_def detect_nonempty [OF t(2)]
    by (simp add: lookup_def dedupe_def)
qed

text \<open>
  Claim C2 asks that each of the three lists holds distinct strings. The phone and the
  social list do (\<open>phones_social_distinct\<close>); the email list is the raw result of
  \<open>findall\<close> and repeats an address that occurs twice in the text.
\<close>

theorem emails_not_deduplicated:
  "details (detect_contact_info (Some ''a@b.co a@b.co'')) ''emails''
     = Some [''a@b.co'', ''a@b.co'']
   \<and> \<not> distinct (lookup (details (detect_contact_info (Some ''a@b.co a@b.co''))) ''emails'')"
proof -
  have "findall EMAIL_PATTERN ''a@b.co a@b.co'' = [''a@b.co'', ''a@b.co'']"
    by code_simp
  then show ?thesis
    unfolding detect_contact_info_def by (simp add: detect_nonempty lookup_def)
qed

subsection \<open>A reported match taken alone\<close>


























end
